theory Spec2Isabelle
  imports Main "HOL-Library.AList" "HOL-Library.Char_ord" "HOL-Library.List_Lexorder"
begin

section \<open>The chat server: in-memory presence and messaging coordinator\<close>

text \<open>
  The server keeps three JavaScript \<^verbatim>\<open>Map\<close>s (\<^verbatim>\<open>users\<close>, \<^verbatim>\<open>connections\<close>,
  \<^verbatim>\<open>messages\<close>), one HTTP route that registers a user and six socket event handlers.
  A \<^verbatim>\<open>Map\<close> iterates in insertion order and \<^verbatim>\<open>set\<close> on a present key keeps the key's
  position, so each map is an association list changed with \<^const>\<open>AList.update\<close> and
  \<^const>\<open>AList.delete\<close> and read with \<^const>\<open>map_of\<close>.

  A JavaScript string is a sequence of UTF-16 code units. The model covers the strings
  whose code units are all below 256, one \<^typ>\<open>char\<close> for each code unit; the order on
  \<^typ>\<open>char\<close> is the order of the code units and the order on strings is the lexicographic
  one, which is how JavaScript compares two strings.
\<close>

subsection \<open>JavaScript values and strings\<close>

text \<open>
  What a client can put into an event payload or a request body. Numbers are the
  integers of magnitude below \<open>2 ^ 53\<close>, which JavaScript holds exactly and prints
  with all their decimal digits; other numbers and arrays are left out. An object is
  the list of its own properties.
\<close>

datatype jsval =
    JUndefined
  | JNull
  | JBool bool
  | JNum int
  | JStr string
  | JObj "(string \<times> jsval) list"

text \<open>Truthiness: \<^verbatim>\<open>!v\<close> is true exactly when \<open>v\<close> is not truthy.\<close>

fun truthy :: "jsval \<Rightarrow> bool" where
  "truthy JUndefined = False"
| "truthy JNull = False"
| "truthy (JBool b) = b"
| "truthy (JNum n) = (n \<noteq> 0)"
| "truthy (JStr s) = (s \<noteq> [])"
| "truthy (JObj fs) = True"

text \<open>
  Reading property \<open>k\<close> of a handler's argument, as the parameter pattern
  \<^verbatim>\<open>({ userId })\<close> does: destructuring \<^verbatim>\<open>undefined\<close> or \<^verbatim>\<open>null\<close> throws a TypeError
  (\<open>None\<close>); a property that is absent reads as \<^verbatim>\<open>undefined\<close>.
\<close>

fun destructure :: "jsval \<Rightarrow> string \<Rightarrow> jsval option" where
  "destructure JUndefined k = None"
| "destructure JNull k = None"
| "destructure (JObj fs) k = Some (case map_of fs k of None \<Rightarrow> JUndefined | Some v \<Rightarrow> v)"
| "destructure v k = Some JUndefined"

text \<open>Decimal digits of a natural number, as a template literal prints \<^verbatim>\<open>Date.now()\<close>.\<close>

fun dec :: "nat \<Rightarrow> string" where
  "dec n = (if n < 10 then [''0123456789'' ! n] else dec (n div 10) @ [''0123456789'' ! (n mod 10)])"

declare dec.simps [simp del]

text \<open>
  \<^verbatim>\<open>ToString\<close>, for the values above: a number is printed for the integers of
  magnitude below \<open>2 ^ 53\<close> only, and an object prints as \<^verbatim>\<open>[object Object]\<close>.
\<close>

fun toString :: "jsval \<Rightarrow> string" where
  "toString JUndefined = ''undefined''"
| "toString JNull = ''null''"
| "toString (JBool b) = (if b then ''true'' else ''false'')"
| "toString (JNum n) = (if n < 0 then CHR ''-'' # dec (nat (- n)) else dec (nat n))"
| "toString (JStr s) = s"
| "toString (JObj fs) = ''[object Object]''"

text \<open>
  \<^verbatim>\<open>String.prototype.trim\<close> strips white space and line terminators from both ends;
  below 256 these are the code units 9 to 13, 32 and 160.
\<close>

definition isWhiteSpace :: "char \<Rightarrow> bool" where
  "isWhiteSpace c = ((of_char c :: nat) \<in> {9, 10, 11, 12, 13, 32, 160})"

definition trim :: "string \<Rightarrow> string" where
  "trim s = rev (dropWhile isWhiteSpace (rev (dropWhile isWhiteSpace s)))"

text \<open>
  \<^verbatim>\<open>String.prototype.toLowerCase\<close>; below 256 the code units with a lower-case partner
  are A to Z and 192 to 222 without 215, each 32 below its partner.
\<close>

definition lowerChar :: "char \<Rightarrow> char" where
  "lowerChar c =
     (let n = (of_char c :: nat)
      in if (65 \<le> n \<and> n \<le> 90) \<or> (192 \<le> n \<and> n \<le> 222 \<and> n \<noteq> 215) then char_of (n + 32) else c)"

definition toLowerCase :: "string \<Rightarrow> string" where
  "toLowerCase s = map lowerChar s"

text \<open>
  \<^verbatim>\<open>Array.prototype.slice(start)\<close> with one argument: a negative \<open>start\<close> counts from
  the end, and both ends are clamped to the array.
\<close>

definition slice :: "int \<Rightarrow> 'a list \<Rightarrow> 'a list" where
  "slice start xs =
     (let len = int (length xs);
          k = (if start < 0 then max (len + start) 0 else min start len)
      in drop (nat k) xs)"

text \<open>
  \<^verbatim>\<open>[x, y].sort()\<close>: the default comparison puts \<^verbatim>\<open>undefined\<close> last and orders the
  other values by their strings; the sort is stable, so the two elements are swapped
  exactly when the first compares greater than the second.
\<close>

definition sort2 :: "jsval \<Rightarrow> jsval \<Rightarrow> jsval list" where
  "sort2 x y =
     (if (x = JUndefined \<and> y \<noteq> JUndefined)
         \<or> (x \<noteq> JUndefined \<and> y \<noteq> JUndefined \<and> toString y < toString x)
      then [y, x] else [x, y])"

text \<open>\<^verbatim>\<open>Array.prototype.join(sep)\<close>: \<^verbatim>\<open>undefined\<close> and \<^verbatim>\<open>null\<close> print as the empty string.\<close>

fun joinElem :: "jsval \<Rightarrow> string" where
  "joinElem JUndefined = []"
| "joinElem JNull = []"
| "joinElem v = toString v"

fun join :: "string \<Rightarrow> jsval list \<Rightarrow> string" where
  "join sep [] = []"
| "join sep [v] = joinElem v"
| "join sep (v # vs) = joinElem v @ sep @ join sep vs"

subsection \<open>Data storage\<close>

record user =
  username :: string
  socketId :: "string option"
  online :: bool
  createdAt :: string

record messageData =
  msgId :: string
  senderId :: string
  senderName :: string
  recipientId :: string
  recipientName :: string
  message :: string
  timestamp :: string

record state =
  users :: "(string \<times> user) list"
  connections :: "(string \<times> string) list"
  messages :: "(string \<times> messageData list) list"

definition init :: state where
  "init = \<lparr>users = [], connections = [], messages = []\<rparr>"

text \<open>
  \<^verbatim>\<open>users.get(v)\<close> for any value \<open>v\<close>: the keys are strings, so only a string finds
  an entry; \<^verbatim>\<open>users.has(v)\<close> is \<open>usersGet s v \<noteq> None\<close>.
\<close>

fun usersGet :: "state \<Rightarrow> jsval \<Rightarrow> user option" where
  "usersGet s (JStr k) = map_of (users s) k"
| "usersGet s v = None"

subsection \<open>Helper functions\<close>

definition getConversationId :: "jsval \<Rightarrow> jsval \<Rightarrow> string" where
  "getConversationId user1 user2 = join ''_'' (sort2 user1 user2)"

text \<open>
  \<^verbatim>\<open>getOnlineUsers(excludeUserId = null)\<close>; \<open>None\<close> is the default \<^verbatim>\<open>null\<close>, which
  no key equals.
\<close>

definition getOnlineUsers :: "string option \<Rightarrow> state \<Rightarrow> (string \<times> string) list" where
  "getOnlineUsers excludeUserId s =
     map (\<lambda>(userId, u). (userId, username u))
       (filter (\<lambda>(userId, u). online u \<and> Some userId \<noteq> excludeUserId) (users s))"

text \<open>
  \<^verbatim>\<open>getChatHistory(user1, user2, limit = 50)\<close>; \<open>None\<close> is a missing \<open>limit\<close>
  (the default applies to \<^verbatim>\<open>undefined\<close> only).
\<close>

definition getChatHistory :: "jsval \<Rightarrow> jsval \<Rightarrow> int option \<Rightarrow> state \<Rightarrow> messageData list" where
  "getChatHistory user1 user2 limit s =
     (let limit' = (case limit of None \<Rightarrow> 50 | Some l \<Rightarrow> l);
          conversationId = getConversationId user1 user2;
          history = (case map_of (messages s) conversationId of None \<Rightarrow> [] | Some h \<Rightarrow> h)
      in slice (- limit') history)"

text \<open>The health check's \<^verbatim>\<open>totalMessages\<close>.\<close>

definition totalMessages :: "state \<Rightarrow> nat" where
  "totalMessages s = fold (\<lambda>(c, msgs) sum. sum + length msgs) (messages s) 0"

subsection \<open>Registration\<close>

datatype response =
    BadRequest string
  | Registered string string

text \<open>
  \<^verbatim>\<open>POST /api/register\<close> on the \<^verbatim>\<open>username\<close> of the request body. \<open>now\<close> is
  \<^verbatim>\<open>Date.now()\<close>, \<open>rnd\<close> is \<^verbatim>\<open>Math.random().toString(36).substr(2, 9)\<close> and \<open>isoNow\<close> is
  \<^verbatim>\<open>new Date().toISOString()\<close>. \<open>None\<close> is a thrown TypeError: a truthy value that
  is no string has no \<^verbatim>\<open>trim\<close>.
\<close>

definition newUserId :: "nat \<Rightarrow> string \<Rightarrow> string" where
  "newUserId now rnd = ''user_'' @ dec now @ ''_'' @ rnd"

definition register :: "nat \<Rightarrow> string \<Rightarrow> string \<Rightarrow> jsval \<Rightarrow> state \<Rightarrow> (response \<times> state) option" where
  "register now rnd isoNow uname s =
     (if \<not> truthy uname then Some (BadRequest ''Username must be at least 2 characters long'', s)
      else case uname of
        JStr name \<Rightarrow>
          if length (trim name) < 2
          then Some (BadRequest ''Username must be at least 2 characters long'', s)
          else if list_ex (\<lambda>(k, u). toLowerCase (username u) = toLowerCase name) (users s)
          then Some (BadRequest ''Username already taken'', s)
          else
            let userId = newUserId now rnd
            in Some (Registered userId (trim name),
                 s\<lparr>users := AList.update userId
                      \<lparr>username = trim name, socketId = None, online = False, createdAt = isoNow\<rparr>
                      (users s)\<rparr>)
      | _ \<Rightarrow> None)"

subsection \<open>Socket events\<close>

text \<open>
  Where an emitted event goes: \<^verbatim>\<open>socket.emit\<close> (the socket of the handler),
  \<^verbatim>\<open>io.to(id).emit\<close> (the room of one socket id), \<^verbatim>\<open>io.emit\<close> (every socket) and
  \<^verbatim>\<open>socket.broadcast.emit\<close> (every socket but the handler's).
\<close>

datatype target =
    Socket string
  | Room string
  | Everyone
  | Others string

datatype serverEvent =
    Error string
  | LoginSuccess string string
  | UsersUpdate "(string \<times> string) list"
  | UserOnline string string
  | ChatHistory jsval "messageData list"
  | ReceiveMessage messageData
  | MessageSent messageData
  | UserTyping string jsval
  | UserOffline string string

text \<open>
  A handler either throws (nothing catches an exception of a socket handler) or
  runs to its end, leaving a state and the events it emitted, in order.
\<close>

datatype outcome =
    Threw
  | Done state "(target \<times> serverEvent) list"

text \<open>\<^verbatim>\<open>connections.get(socket.id)\<close> followed by the test \<^verbatim>\<open>!userId\<close>: the empty string is falsy.\<close>

definition boundUser :: "state \<Rightarrow> string \<Rightarrow> string option" where
  "boundUser s sid =
     (case map_of (connections s) sid of
        None \<Rightarrow> None
      | Some userId \<Rightarrow> if userId = [] then None else Some userId)"

text \<open>\<^verbatim>\<open>recipient.online && recipient.socketId\<close>: the handle to send to, if the test passes.\<close>

definition onlineHandle :: "user \<Rightarrow> string option" where
  "onlineHandle u =
     (if online u then (case socketId u of None \<Rightarrow> None | Some h \<Rightarrow> if h = [] then None else Some h)
      else None)"

definition userLogin :: "string \<Rightarrow> jsval \<Rightarrow> state \<Rightarrow> outcome" where
  "userLogin sid payload s =
     (case destructure payload ''userId'' of
        None \<Rightarrow> Threw
      | Some userId \<Rightarrow>
          (case usersGet s userId of
             None \<Rightarrow> Done s [(Socket sid, Error ''User not found'')]
           | Some u \<Rightarrow>
               let k = toString userId;
                   u' = u\<lparr>socketId := Some sid, online := True\<rparr>;
                   s' = s\<lparr>users := AList.update k u' (users s),
                          connections := AList.update sid k (connections s)\<rparr>
               in Done s'
                    [(Socket sid, LoginSuccess k (username u')),
                     (Everyone, UsersUpdate (getOnlineUsers None s')),
                     (Others sid, UserOnline k (username u'))]))"

definition getChatHistoryHandler :: "string \<Rightarrow> jsval \<Rightarrow> state \<Rightarrow> outcome" where
  "getChatHistoryHandler sid payload s =
     (case destructure payload ''otherUserId'' of
        None \<Rightarrow> Threw
      | Some otherUserId \<Rightarrow>
          (case boundUser s sid of
             None \<Rightarrow> Done s []
           | Some userId \<Rightarrow>
               Done s [(Socket sid,
                 ChatHistory otherUserId (getChatHistory (JStr userId) otherUserId None s))]))"

text \<open>Lines 238 to 242: create the conversation if it is absent, then push the message.\<close>

definition storeMessage :: "string \<Rightarrow> messageData \<Rightarrow> state \<Rightarrow> state" where
  "storeMessage conversationId m s =
     (let ms = (case map_of (messages s) conversationId of
                  None \<Rightarrow> AList.update conversationId [] (messages s)
                | Some h \<Rightarrow> messages s);
          h = (case map_of ms conversationId of None \<Rightarrow> [] | Some h \<Rightarrow> h)
      in s\<lparr>messages := AList.update conversationId (h @ [m]) ms\<rparr>)"

text \<open>
  \<open>now\<close>, \<open>rnd\<close> and \<open>isoNow\<close> as in \<^const>\<open>register\<close>. The message object is built
  before anything is stored: \<^verbatim>\<open>sender.username\<close> throws when the bound user is not in
  the registry, and \<^verbatim>\<open>message.trim()\<close> throws unless \<open>message\<close> is a string.
\<close>

definition sendMessage :: "string \<Rightarrow> jsval \<Rightarrow> nat \<Rightarrow> string \<Rightarrow> string \<Rightarrow> state \<Rightarrow> outcome" where
  "sendMessage sid payload now rnd isoNow s =
     (case (destructure payload ''recipientId'', destructure payload ''message'') of
        (Some recipientIdV, Some messageV) \<Rightarrow>
          (case boundUser s sid of
             None \<Rightarrow> Done s [(Socket sid, Error ''Not authenticated'')]
           | Some sender_id \<Rightarrow>
               (case usersGet s recipientIdV of
                  None \<Rightarrow> Done s [(Socket sid, Error ''Recipient not found'')]
                | Some recipient \<Rightarrow>
                    (case (map_of (users s) sender_id, messageV) of
                       (Some sender, JStr body) \<Rightarrow>
                         let messageData =
                               \<lparr>msgId = ''msg_'' @ dec now @ ''_'' @ rnd,
                                senderId = sender_id,
                                senderName = username sender,
                                recipientId = toString recipientIdV,
                                recipientName = username recipient,
                                message = trim body,
                                timestamp = isoNow\<rparr>;
                             conversationId = getConversationId (JStr sender_id) recipientIdV;
                             s' = storeMessage conversationId messageData s
                         in Done s'
                              ((case onlineHandle recipient of
                                  None \<Rightarrow> []
                                | Some h \<Rightarrow> [(Room h, ReceiveMessage messageData)])
                               @ [(Socket sid, MessageSent messageData)])
                     | _ \<Rightarrow> Threw)))
      | _ \<Rightarrow> Threw)"

definition typing :: "string \<Rightarrow> jsval \<Rightarrow> state \<Rightarrow> outcome" where
  "typing sid payload s =
     (case (destructure payload ''recipientId'', destructure payload ''isTyping'') of
        (Some recipientIdV, Some isTyping) \<Rightarrow>
          (case boundUser s sid of
             None \<Rightarrow> Done s []
           | Some sender_id \<Rightarrow>
               (case usersGet s recipientIdV of
                  None \<Rightarrow> Done s []
                | Some recipient \<Rightarrow>
                    (case onlineHandle recipient of
                       None \<Rightarrow> Done s []
                     | Some h \<Rightarrow> Done s [(Room h, UserTyping sender_id isTyping)])))
      | _ \<Rightarrow> Threw)"

text \<open>The disconnect handler; the logout handler has the same body.\<close>

definition disconnect :: "string \<Rightarrow> state \<Rightarrow> outcome" where
  "disconnect sid s =
     (case (case boundUser s sid of None \<Rightarrow> None
            | Some userId \<Rightarrow> map_option (Pair userId) (map_of (users s) userId)) of
        Some (userId, u) \<Rightarrow>
          let u' = u\<lparr>online := False, socketId := None\<rparr>;
              s' = s\<lparr>users := AList.update userId u' (users s)\<rparr>
          in Done (s'\<lparr>connections := AList.delete sid (connections s')\<rparr>)
               [(Others sid, UserOffline userId (username u')),
                (Everyone, UsersUpdate (getOnlineUsers None s'))]
      | None \<Rightarrow> Done (s\<lparr>connections := AList.delete sid (connections s)\<rparr>) [])"

definition logout :: "string \<Rightarrow> state \<Rightarrow> outcome" where
  "logout sid s =
     (case (case boundUser s sid of None \<Rightarrow> None
            | Some userId \<Rightarrow> map_option (Pair userId) (map_of (users s) userId)) of
        Some (userId, u) \<Rightarrow>
          let u' = u\<lparr>online := False, socketId := None\<rparr>;
              s' = s\<lparr>users := AList.update userId u' (users s)\<rparr>
          in Done (s'\<lparr>connections := AList.delete sid (connections s')\<rparr>)
               [(Others sid, UserOffline userId (username u')),
                (Everyone, UsersUpdate (getOnlineUsers None s'))]
      | None \<Rightarrow> Done (s\<lparr>connections := AList.delete sid (connections s)\<rparr>) [])"

subsection \<open>Runs of the server\<close>

text \<open>
  One inbound event: a registration request or a socket event with the id of its
  socket. An exception of the registration route is answered by the web framework and
  the process goes on with the state as it was; an exception of a socket handler ends
  the process.
\<close>

datatype event =
    Register nat string string jsval
  | UserLoginEv string jsval
  | GetChatHistoryEv string jsval
  | SendMessageEv string jsval nat string string
  | TypingEv string jsval
  | LogoutEv string
  | DisconnectEv string

fun handle :: "event \<Rightarrow> state \<Rightarrow> outcome" where
  "handle (Register now rnd isoNow uname) s =
     (case register now rnd isoNow uname s of None \<Rightarrow> Done s [] | Some (r, s') \<Rightarrow> Done s' [])"
| "handle (UserLoginEv sid payload) s = userLogin sid payload s"
| "handle (GetChatHistoryEv sid payload) s = getChatHistoryHandler sid payload s"
| "handle (SendMessageEv sid payload now rnd isoNow) s = sendMessage sid payload now rnd isoNow s"
| "handle (TypingEv sid payload) s = typing sid payload s"
| "handle (LogoutEv sid) s = logout sid s"
| "handle (DisconnectEv sid) s = disconnect sid s"

fun run :: "event list \<Rightarrow> state \<Rightarrow> outcome" where
  "run [] s = Done s []"
| "run (e # es) s =
     (case handle e s of
        Threw \<Rightarrow> Threw
      | Done s' out \<Rightarrow>
          (case run es s' of Threw \<Rightarrow> Threw | Done s'' out' \<Rightarrow> Done s'' (out @ out')))"

subsection \<open>Notions used to state the properties\<close>

text \<open>The last \<open>n\<close> elements of a list, in the list's order.\<close>

definition lastN :: "nat \<Rightarrow> 'a list \<Rightarrow> 'a list" where
  "lastN n xs = drop (length xs - n) xs"

text \<open>The stored conversation of a pair, empty when the pair has none.\<close>

definition conversation :: "state \<Rightarrow> jsval \<Rightarrow> jsval \<Rightarrow> messageData list" where
  "conversation s a b =
     (case map_of (messages s) (getConversationId a b) of None \<Rightarrow> [] | Some h \<Rightarrow> h)"

text \<open>An emission of the typing handler: a \<^verbatim>\<open>user-typing\<close> event sent to the room of one socket id.\<close>

fun isTypingEmission :: "target \<times> serverEvent \<Rightarrow> bool" where
  "isTypingEmission (Room h, UserTyping k v) = True"
| "isTypingEmission e = False"

text \<open>A sequence of typing events, each with its socket id and payload.\<close>

definition typingEvents :: "(string \<times> jsval) list \<Rightarrow> event list" where
  "typingEvents ps = map (\<lambda>(sid, payload). TypingEv sid payload) ps"

text \<open>
  A run in which no channel logs in while it has a binding, no user logs in while
  online, and every registration draws an identifier that is not in the registry:
  \<open>admissible\<close> is the condition on one event in the state it arrives in.
\<close>

fun admissible :: "event \<Rightarrow> state \<Rightarrow> bool" where
  "admissible (UserLoginEv sid payload) s =
     (map_of (connections s) sid = None
      \<and> (case destructure payload ''userId'' of
           None \<Rightarrow> True
         | Some v \<Rightarrow> (case usersGet s v of None \<Rightarrow> True | Some u \<Rightarrow> \<not> online u)))"
| "admissible (Register now rnd isoNow uname) s = (map_of (users s) (newUserId now rnd) = None)"
| "admissible e s = True"

fun disciplined :: "event list \<Rightarrow> state \<Rightarrow> bool" where
  "disciplined [] s = True"
| "disciplined (e # es) s =
     (admissible e s \<and> (case handle e s of Threw \<Rightarrow> True | Done s' out \<Rightarrow> disciplined es s'))"

text \<open>The invariants of the runs.\<close>

definition onlineIffHandle :: "state \<Rightarrow> bool" where
  "onlineIffHandle s = (\<forall>k u. map_of (users s) k = Some u \<longrightarrow> (online u \<longleftrightarrow> socketId u \<noteq> None))"

definition boundRegistered :: "state \<Rightarrow> bool" where
  "boundRegistered s = (\<forall>c k. map_of (connections s) c = Some k \<longrightarrow> map_of (users s) k \<noteq> None)"

definition matchMaps :: "(string \<rightharpoonup> user) \<Rightarrow> (string \<rightharpoonup> string) \<Rightarrow> bool" where
  "matchMaps U C =
     ((\<forall>c k. C c = Some k \<longrightarrow> k \<noteq> [] \<and> (\<exists>u. U k = Some u \<and> socketId u = Some c))
      \<and> (\<forall>k u c. U k = Some u \<and> socketId u = Some c \<longrightarrow> C c = Some k))"

definition bindingsMatch :: "state \<Rightarrow> bool" where
  "bindingsMatch s =
     (onlineIffHandle s \<and> map_of (users s) [] = None
      \<and> matchMaps (map_of (users s)) (map_of (connections s)))"

text \<open>
  The identifiers that registration builds when the random suffix has its full length:
  \<^verbatim>\<open>user_\<close>, the decimal digits of a timestamp, an underscore and nine characters
  of base 36.
\<close>

definition isDigit :: "char \<Rightarrow> bool" where
  "isDigit c = (c \<in> set ''0123456789'')"

definition isBase36 :: "char \<Rightarrow> bool" where
  "isBase36 c = (c \<in> set ''0123456789abcdefghijklmnopqrstuvwxyz'')"

definition isUserId :: "string \<Rightarrow> bool" where
  "isUserId s =
     (take 5 s = ''user_''
      \<and> (let rest = drop 5 s;
              t = takeWhile isDigit rest
          in t \<noteq> []
             \<and> (case drop (length t) rest of
                  [] \<Rightarrow> False
                | c # suffix \<Rightarrow> c = CHR ''_'' \<and> length suffix = 9 \<and> list_all isBase36 suffix)))"

subsection \<open>Example states and runs\<close>

definition msg :: "string \<Rightarrow> messageData" where
  "msg body =
     \<lparr>msgId = ''msg_1_aaaaaaaaa'', senderId = ''a'', senderName = ''alice'', recipientId = ''b'',
      recipientName = ''bob'', message = body, timestamp = ''t''\<rparr>"

definition twoMessages :: state where
  "twoMessages = \<lparr>users = [], connections = [], messages = [(''a_b'', [msg ''one'', msg ''two''])]\<rparr>"

definition manyMessages :: state where
  "manyMessages = \<lparr>users = [], connections = [], messages = [(''a_b'', replicate 51 (msg ''x''))]\<rparr>"

definition alice :: user where
  "alice = \<lparr>username = ''alice'', socketId = None, online = False, createdAt = ''t1''\<rparr>"

definition bob :: user where
  "bob = \<lparr>username = ''bob'', socketId = None, online = False, createdAt = ''t2''\<rparr>"

definition aliceId :: string where "aliceId = ''user_5_aaaaaaaaa''"

definition bobId :: string where "bobId = ''user_6_bbbbbbbbb''"

definition aliceRegistered :: state where
  "aliceRegistered = \<lparr>users = [(aliceId, alice)], connections = [], messages = []\<rparr>"

definition bothRegistered :: state where
  "bothRegistered = \<lparr>users = [(aliceId, alice), (bobId, bob)], connections = [], messages = []\<rparr>"

definition aliceOnline :: state where
  "aliceOnline =
     \<lparr>users = [(aliceId, alice\<lparr>socketId := Some ''c1'', online := True\<rparr>), (bobId, bob)],
      connections = [(''c1'', aliceId)], messages = []\<rparr>"

definition aliceOnlineRun :: "event list" where
  "aliceOnlineRun =
     [Register 5 ''aaaaaaaaa'' ''t1'' (JStr ''alice''),
      Register 6 ''bbbbbbbbb'' ''t2'' (JStr ''bob''),
      UserLoginEv ''c1'' (JObj [(''userId'', JStr aliceId)])]"

definition twoChannelsRun :: "event list" where
  "twoChannelsRun =
     aliceOnlineRun @
     [UserLoginEv ''c2'' (JObj [(''userId'', JStr aliceId)]),
      DisconnectEv ''c1'']"

definition twoChannels :: state where
  "twoChannels =
     \<lparr>users = [(aliceId, alice\<lparr>socketId := Some ''c2'', online := True\<rparr>), (bobId, bob)],
      connections = [(''c1'', aliceId), (''c2'', aliceId)], messages = []\<rparr>"

definition orphanBinding :: state where
  "orphanBinding =
     \<lparr>users = [(aliceId, alice), (bobId, bob)],
      connections = [(''c2'', aliceId)], messages = []\<rparr>"

definition carolId :: string where "carolId = ''user_7_ccccccccc''"

section \<open>Properties\<close>

subsection \<open>Evaluating the example run\<close>

lemma dec_5: "dec 5 = ''5''"
  by (subst dec.simps) simp

lemma dec_6: "dec 6 = ''6''"
  by (subst dec.simps) simp

lemma trim_alice: "trim ''alice'' = ''alice''" "trim '' alice'' = ''alice''" "trim ''bob'' = ''bob''"
  by (simp_all add: trim_def isWhiteSpace_def)

lemma lower_names: "toLowerCase ''alice'' = ''alice''" "toLowerCase '' alice'' = '' alice''"
   "toLowerCase ''bob'' = ''bob''"
  by (simp_all add: toLowerCase_def lowerChar_def)

lemma step_register_alice:
  "handle (Register 5 ''aaaaaaaaa'' ''t1'' (JStr ''alice'')) init = Done aliceRegistered []"
  by (simp add: Let_def register_def init_def newUserId_def dec_5 trim_alice
    aliceRegistered_def alice_def aliceId_def)

lemma step_register_bob:
  "handle (Register 6 ''bbbbbbbbb'' ''t2'' (JStr ''bob'')) aliceRegistered = Done bothRegistered []"
  by (simp add: Let_def register_def newUserId_def dec_6 trim_alice lower_names
    aliceRegistered_def bothRegistered_def alice_def bob_def aliceId_def bobId_def)

lemma step_login_alice:
  "handle (UserLoginEv ''c1'' (JObj [(''userId'', JStr aliceId)])) bothRegistered
     = Done aliceOnline
         [(Socket ''c1'', LoginSuccess aliceId ''alice''),
          (Everyone, UsersUpdate [(aliceId, ''alice'')]),
          (Others ''c1'', UserOnline aliceId ''alice'')]"
  by (simp add: Let_def userLogin_def getOnlineUsers_def
    aliceOnline_def bothRegistered_def alice_def bob_def aliceId_def bobId_def)

lemma aliceOnline_reachable:
  "run aliceOnlineRun init
     = Done aliceOnline
         [(Socket ''c1'', LoginSuccess aliceId ''alice''),
          (Everyone, UsersUpdate [(aliceId, ''alice'')]),
          (Others ''c1'', UserOnline aliceId ''alice'')]"
  by (simp del: handle.simps add: aliceOnlineRun_def step_register_alice step_register_bob step_login_alice)

subsection \<open>Registration\<close>

text \<open>
  Claim C2 fails on the code. The route validates and stores the trimmed name but looks
  for an existing user with the name as it was sent: with \<open>alice\<close> registered, the
  input \<open>alice\<close> with a leading space has a trimmed form that matches the stored name,
  yet it is registered, as a second user named \<open>alice\<close>.
\<close>

theorem register_untrimmed_duplicate:
  "toLowerCase (trim '' alice'') = toLowerCase (username alice)
   \<and> register 6 ''bbbbbbbbb'' ''t2'' (JStr '' alice'') aliceRegistered
       = Some (Registered ''user_6_bbbbbbbbb'' ''alice'',
           \<lparr>users = [(aliceId, alice), (''user_6_bbbbbbbbb'', alice\<lparr>createdAt := ''t2''\<rparr>)],
            connections = [], messages = []\<rparr>)"
  by (simp add: Let_def register_def newUserId_def dec_6 trim_alice lower_names
    aliceRegistered_def alice_def aliceId_def bobId_def)

subsection \<open>Sending a message\<close>

lemma destructure_other:
  "destructure p k = Some v \<Longrightarrow> \<exists>v'. destructure p k' = Some v'"
  by (cases p) auto

text \<open>
  Claim C5. A send-message event from an authenticated channel whose \<open>recipientId\<close> is
  not a key of the registry emits exactly one event, the error \<open>Recipient not found\<close>
  to the sender's socket, and leaves the whole state (registry, connections,
  conversations, hence the total message count) as it was.
\<close>

theorem send_to_unknown_recipient:
  assumes "destructure payload ''recipientId'' = Some r"
    and "boundUser s sid = Some k"
    and "usersGet s r = None"
  shows "\<exists>s' out. sendMessage sid payload now rnd isoNow s = Done s' out
           \<and> out = [(Socket sid, Error ''Recipient not found'')]
           \<and> s' = s \<and> totalMessages s' = totalMessages s"
proof -
  from assms(1) obtain v where "destructure payload ''message'' = Some v"
    using destructure_other by blast
  with assms show ?thesis
    by (simp add: sendMessage_def)
qed

theorem send_to_unknown_recipient_witness:
  "sendMessage ''c1'' (JObj [(''recipientId'', JStr ''nobody''), (''message'', JStr ''hi'')])
      7 ''ccccccccc'' ''t3'' aliceOnline
     = Done aliceOnline [(Socket ''c1'', Error ''Recipient not found'')]"
proof -
  have "destructure (JObj [(''recipientId'', JStr ''nobody''), (''message'', JStr ''hi'')]) ''recipientId''
          = Some (JStr ''nobody'')"
    by simp
  moreover have "boundUser aliceOnline ''c1'' = Some aliceId"
    by (simp add: boundUser_def aliceOnline_def aliceId_def)
  moreover have "usersGet aliceOnline (JStr ''nobody'') = None"
    by (simp add: aliceOnline_def aliceId_def bobId_def)
  ultimately show ?thesis
    using send_to_unknown_recipient [of _ "JStr ''nobody''" aliceOnline "''c1''" aliceId 7 "''ccccccccc''" "''t3''"]
    by auto
qed

text \<open>
  Claim C9 fails on the code. In a state reached by two registrations and a login, a
  send-message event from the authenticated channel to a registered recipient throws a
  TypeError when the payload has no \<open>message\<close> or one that is no string
  (\<^verbatim>\<open>message.trim()\<close> is not guarded), and when the event has no payload at all.
\<close>

theorem send_without_message_throws:
  "run aliceOnlineRun init
     = Done aliceOnline
         [(Socket ''c1'', LoginSuccess aliceId ''alice''),
          (Everyone, UsersUpdate [(aliceId, ''alice'')]),
          (Others ''c1'', UserOnline aliceId ''alice'')]
   \<and> sendMessage ''c1'' (JObj [(''recipientId'', JStr bobId)]) 7 ''ccccccccc'' ''t3'' aliceOnline = Threw
   \<and> sendMessage ''c1'' (JObj [(''recipientId'', JStr bobId), (''message'', JNum 5)]) 7 ''ccccccccc'' ''t3'' aliceOnline = Threw
   \<and> sendMessage ''c1'' JUndefined 7 ''ccccccccc'' ''t3'' aliceOnline = Threw"
  using aliceOnline_reachable
  by (simp add: sendMessage_def boundUser_def aliceOnline_def aliceId_def bobId_def)

subsection \<open>Typing\<close>

lemma logout_eq_disconnect: "logout sid s = disconnect sid s"
  by (simp add: logout_def disconnect_def)

lemma typing_cases:
  "(typing sid payload s = Threw \<and> (payload = JUndefined \<or> payload = JNull))
   \<or> typing sid payload s = Done s []
   \<or> (\<exists>k recipientIdV isTyping recipient h.
         boundUser s sid = Some k
         \<and> destructure payload ''recipientId'' = Some recipientIdV
         \<and> destructure payload ''isTyping'' = Some isTyping
         \<and> usersGet s recipientIdV = Some recipient
         \<and> online recipient \<and> socketId recipient = Some h
         \<and> typing sid payload s = Done s [(Room h, UserTyping k isTyping)])"
proof (cases "destructure payload ''recipientId''")
  case None
  then have "payload = JUndefined \<or> payload = JNull"
    by (cases payload) auto
  with None show ?thesis by (auto simp add: typing_def)
next
  case (Some r)
  then obtain t where t: "destructure payload ''isTyping'' = Some t"
    using destructure_other by blast
  show ?thesis
    using Some t
    by (auto simp add: typing_def onlineHandle_def split: option.splits if_splits)
qed

lemma typing_Done: "typing sid payload s = Done s' out \<Longrightarrow> s' = s \<and> list_all isTypingEmission out"
  using typing_cases [of sid payload s] by auto

lemma run_typing_Done:
  "run (typingEvents ps) s = Done s' out \<Longrightarrow> s' = s \<and> list_all isTypingEmission out"
proof (induction ps arbitrary: s' out)
  case Nil
  then show ?case by (simp add: typingEvents_def)
next
  case (Cons p ps)
  obtain sid payload where p: "p = (sid, payload)" by (cases p)
  from Cons.prems p obtain s1 out1 s2 out2 where
    h: "typing sid payload s = Done s1 out1" and r: "run (typingEvents ps) s1 = Done s2 out2"
    and e: "s' = s2" "out = out1 @ out2"
    by (auto simp add: typingEvents_def split: outcome.splits)
  from h have "s1 = s" "list_all isTypingEmission out1" using typing_Done by blast+
  with r Cons.IH [of s2 out2] e show ?case by simp
qed

lemma run_typing_total:
  "list_all (\<lambda>(sid, payload). payload \<noteq> JUndefined \<and> payload \<noteq> JNull) ps
     \<Longrightarrow> \<exists>out. run (typingEvents ps) s = Done s out"
proof (induction ps)
  case Nil
  then show ?case by (simp add: typingEvents_def)
next
  case (Cons p ps)
  obtain sid payload where p: "p = (sid, payload)" by (cases p)
  with Cons.prems have "payload \<noteq> JUndefined" "payload \<noteq> JNull" by auto
  then obtain out1 where "typing sid payload s = Done s out1"
    using typing_cases [of sid payload s] by auto
  moreover from Cons obtain out2 where "run (typingEvents ps) s = Done s out2" by auto
  ultimately show ?case using p by (simp add: typingEvents_def)
qed

text \<open>
  Claim C8. A typing event either throws before doing anything (only when it has no
  payload), or ends with the state unchanged and nothing emitted, or ends with the state
  unchanged and one \<^verbatim>\<open>user-typing\<close> event sent to the handle of the recipient, which
  happens only when the sender is authenticated and the recipient is online. Any
  sequence of typing events that does not throw ends in the state it started from, so
  every history is what it was, and all it emits are such \<^verbatim>\<open>user-typing\<close> events;
  it throws only when one of the events has no payload.
\<close>

theorem typing_changes_nothing:
  "((typing sid payload s = Threw \<and> (payload = JUndefined \<or> payload = JNull))
    \<or> typing sid payload s = Done s []
    \<or> (\<exists>k recipientIdV isTyping recipient h.
          boundUser s sid = Some k
          \<and> destructure payload ''recipientId'' = Some recipientIdV
          \<and> destructure payload ''isTyping'' = Some isTyping
          \<and> usersGet s recipientIdV = Some recipient
          \<and> online recipient \<and> socketId recipient = Some h
          \<and> typing sid payload s = Done s [(Room h, UserTyping k isTyping)]))
   \<and> ((run (typingEvents ps) s = Threw
        \<and> list_ex (\<lambda>(sid, payload). payload = JUndefined \<or> payload = JNull) ps)
       \<or> (\<exists>s' out. run (typingEvents ps) s = Done s' out
             \<and> s' = s
             \<and> (\<forall>a b limit. getChatHistory a b limit s' = getChatHistory a b limit s)
             \<and> list_all isTypingEmission out))"
proof
  show "(typing sid payload s = Threw \<and> (payload = JUndefined \<or> payload = JNull))
    \<or> typing sid payload s = Done s []
    \<or> (\<exists>k recipientIdV isTyping recipient h.
          boundUser s sid = Some k
          \<and> destructure payload ''recipientId'' = Some recipientIdV
          \<and> destructure payload ''isTyping'' = Some isTyping
          \<and> usersGet s recipientIdV = Some recipient
          \<and> online recipient \<and> socketId recipient = Some h
          \<and> typing sid payload s = Done s [(Room h, UserTyping k isTyping)])"
    by (rule typing_cases)
next
  show "(run (typingEvents ps) s = Threw
        \<and> list_ex (\<lambda>(sid, payload). payload = JUndefined \<or> payload = JNull) ps)
       \<or> (\<exists>s' out. run (typingEvents ps) s = Done s' out
             \<and> s' = s
             \<and> (\<forall>a b limit. getChatHistory a b limit s' = getChatHistory a b limit s)
             \<and> list_all isTypingEmission out)"
  proof (cases "run (typingEvents ps) s")
    case Threw
    have "list_ex (\<lambda>(sid, payload). payload = JUndefined \<or> payload = JNull) ps"
    proof (rule ccontr)
      assume "\<not> list_ex (\<lambda>(sid, payload). payload = JUndefined \<or> payload = JNull) ps"
      then have "list_all (\<lambda>(sid, payload). payload \<noteq> JUndefined \<and> payload \<noteq> JNull) ps"
        by (auto simp add: list_all_iff list_ex_iff)
      from run_typing_total [OF this, of s] Threw show False by simp
    qed
    with Threw show ?thesis by simp
  next
    case (Done s' out)
    with run_typing_Done [of ps s s' out] show ?thesis by simp
  qed
qed

subsection \<open>Two channels for one user\<close>

text \<open>
  Claim C10. Let user \<open>k\<close> be bound to channel \<open>c1\<close>. A login of \<open>k\<close> from another
  channel \<open>c2\<close> succeeds (the events are \<^verbatim>\<open>login-success\<close>, \<^verbatim>\<open>users-update\<close> and
  \<^verbatim>\<open>user-online\<close>, no error): the user's \<open>socketId\<close> becomes \<open>c2\<close>, and both \<open>c1\<close>
  and \<open>c2\<close> resolve to \<open>k\<close>. A disconnect or a logout of \<open>c1\<close> then marks the user
  offline with a null \<open>socketId\<close>, while \<open>c2\<close> still resolves to \<open>k\<close>.
\<close>

theorem second_login_overwrites:
  assumes u: "map_of (users s) k = Some u"
    and k: "k \<noteq> []"
    and c1: "map_of (connections s) c1 = Some k"
    and c2: "c2 \<noteq> c1"
    and p: "destructure payload ''userId'' = Some (JStr k)"
  shows "\<exists>s1 u1 s2 u2 out2.
           userLogin c2 payload s
             = Done s1 [(Socket c2, LoginSuccess k (username u)),
                        (Everyone, UsersUpdate (getOnlineUsers None s1)),
                        (Others c2, UserOnline k (username u))]
           \<and> map_of (users s1) k = Some u1 \<and> online u1 \<and> socketId u1 = Some c2
           \<and> boundUser s1 c1 = Some k \<and> boundUser s1 c2 = Some k
           \<and> disconnect c1 s1 = Done s2 out2 \<and> logout c1 s1 = Done s2 out2
           \<and> map_of (users s2) k = Some u2 \<and> \<not> online u2 \<and> socketId u2 = None
           \<and> boundUser s2 c2 = Some k"
proof -
  define u1 where "u1 = u\<lparr>socketId := Some c2, online := True\<rparr>"
  define s1 where "s1 = s\<lparr>users := AList.update k u1 (users s),
                          connections := AList.update c2 k (connections s)\<rparr>"
  define u2 where "u2 = u1\<lparr>online := False, socketId := None\<rparr>"
  define s1' where "s1' = s1\<lparr>users := AList.update k u2 (users s1)\<rparr>"
  define s2 where "s2 = s1'\<lparr>connections := AList.delete c1 (connections s1')\<rparr>"
  have login: "userLogin c2 payload s
             = Done s1 [(Socket c2, LoginSuccess k (username u)),
                        (Everyone, UsersUpdate (getOnlineUsers None s1)),
                        (Others c2, UserOnline k (username u))]"
    using u p by (simp add: userLogin_def s1_def u1_def Let_def)
  have m1: "map_of (users s1) k = Some u1"
    by (simp add: s1_def update_conv')
  have f1: "online u1" "socketId u1 = Some c2"
    by (simp_all add: u1_def)
  have b1: "boundUser s1 c1 = Some k" "boundUser s1 c2 = Some k"
    using c1 c2 k by (simp_all add: s1_def boundUser_def update_conv')
  have d: "disconnect c1 s1
             = Done s2 [(Others c1, UserOffline k (username u2)),
                        (Everyone, UsersUpdate (getOnlineUsers None s1'))]"
    using b1 m1 by (simp add: disconnect_def Let_def s2_def s1'_def u2_def)
  have m2: "map_of (users s2) k = Some u2"
    by (simp add: s2_def s1'_def update_conv')
  have f2: "\<not> online u2" "socketId u2 = None"
    by (simp_all add: u2_def)
  have b2: "boundUser s2 c2 = Some k"
    using c2 k by (simp add: s2_def s1'_def s1_def boundUser_def update_conv' delete_conv')
  from login m1 f1 b1 d m2 f2 b2 show ?thesis
    by (simp add: logout_eq_disconnect)
qed

theorem second_login_overwrites_witness:
  "\<exists>s1 u1 s2 u2 out2.
     userLogin ''c2'' (JObj [(''userId'', JStr aliceId)]) aliceOnline
       = Done s1 [(Socket ''c2'', LoginSuccess aliceId ''alice''),
                  (Everyone, UsersUpdate (getOnlineUsers None s1)),
                  (Others ''c2'', UserOnline aliceId ''alice'')]
     \<and> map_of (users s1) aliceId = Some u1 \<and> online u1 \<and> socketId u1 = Some ''c2''
     \<and> boundUser s1 ''c1'' = Some aliceId \<and> boundUser s1 ''c2'' = Some aliceId
     \<and> disconnect ''c1'' s1 = Done s2 out2 \<and> logout ''c1'' s1 = Done s2 out2
     \<and> map_of (users s2) aliceId = Some u2 \<and> \<not> online u2 \<and> socketId u2 = None
     \<and> boundUser s2 ''c2'' = Some aliceId"
proof -
  have "map_of (users aliceOnline) aliceId = Some (alice\<lparr>socketId := Some ''c1'', online := True\<rparr>)"
    by (simp add: aliceOnline_def)
  moreover have "aliceId \<noteq> []"
    by (simp add: aliceId_def)
  moreover have "map_of (connections aliceOnline) ''c1'' = Some aliceId"
    by (simp add: aliceOnline_def)
  moreover have "''c2'' \<noteq> ''c1''"
    by simp
  moreover have "destructure (JObj [(''userId'', JStr aliceId)]) ''userId'' = Some (JStr aliceId)"
    by simp
  ultimately show ?thesis
    using second_login_overwrites [of aliceOnline aliceId _ "''c1''" "''c2''" "JObj [(''userId'', JStr aliceId)]"]
    by (simp add: alice_def)
qed

subsection \<open>Conversation keys and history\<close>

lemma getConversationId_strings:
  "getConversationId (JStr a) (JStr b) = (if b < a then b @ ''_'' @ a else a @ ''_'' @ b)"
  by (simp add: getConversationId_def sort2_def)

lemma getConversationId_commute:
  "getConversationId (JStr a) (JStr b) = getConversationId (JStr b) (JStr a)"
  by (auto simp add: getConversationId_strings)

lemma slice_neg: "0 < l \<Longrightarrow> slice (- l) xs = lastN (nat l) xs"
  by (auto simp add: slice_def lastN_def Let_def max_def intro: arg_cong [where f = "\<lambda>k. drop k xs"])

lemma getChatHistory_conversation:
  "getChatHistory a b limit s =
     slice (- (case limit of None \<Rightarrow> 50 | Some l \<Rightarrow> l)) (conversation s a b)"
  by (simp add: getChatHistory_def conversation_def)

text \<open>
  Claim C3, as amended. For a positive \<open>limit\<close>, \<^const>\<open>getChatHistory\<close> returns the last
  \<open>limit\<close> messages of the pair's conversation in insertion order; it returns the empty
  list when the pair has no conversation, whatever the limit; and a missing limit
  behaves as the limit 50.
\<close>

theorem history_last_messages:
  "(0 < l \<longrightarrow> getChatHistory a b (Some l) s = lastN (nat l) (conversation s a b))
   \<and> (map_of (messages s) (getConversationId a b) = None \<longrightarrow> getChatHistory a b limit s = [])
   \<and> getChatHistory a b None s = getChatHistory a b (Some 50) s"
proof (intro conjI impI)
  assume "0 < l"
  then show "getChatHistory a b (Some l) s = lastN (nat l) (conversation s a b)"
    by (simp add: getChatHistory_conversation slice_neg)
next
  assume "map_of (messages s) (getConversationId a b) = None"
  then show "getChatHistory a b limit s = []"
    by (simp add: getChatHistory_conversation conversation_def slice_def)
next
  show "getChatHistory a b None s = getChatHistory a b (Some 50) s"
    by (simp add: getChatHistory_conversation)
qed

theorem history_last_messages_witness:
  "getChatHistory (JStr ''a'') (JStr ''b'') (Some 1) twoMessages = [msg ''two'']
   \<and> getChatHistory (JStr ''a'') (JStr ''c'') (Some 1) twoMessages = []"
proof -
  have c: "conversation twoMessages (JStr ''a'') (JStr ''b'') = [msg ''one'', msg ''two'']"
    by (simp add: conversation_def twoMessages_def getConversationId_strings)
  have n: "map_of (messages twoMessages) (getConversationId (JStr ''a'') (JStr ''c'')) = None"
    by (simp add: twoMessages_def getConversationId_strings)
  have "getChatHistory (JStr ''a'') (JStr ''b'') (Some 1) twoMessages = [msg ''two'']"
    using history_last_messages [of 1 "JStr ''a''" "JStr ''b''" twoMessages] c
    by (simp add: lastN_def)
  moreover have "getChatHistory (JStr ''a'') (JStr ''c'') (Some 1) twoMessages = []"
    using history_last_messages [of 1 "JStr ''a''" "JStr ''c''" twoMessages "Some 1"] n
    by blast
  ultimately show ?thesis by simp
qed

text \<open>
  Claim C3 as stated fails for a limit that is not positive: \<^verbatim>\<open>slice(-limit)\<close> with the
  limit \<open>-1\<close> drops the first message of a conversation of two, where the limit 50 returns
  both; and with the limit 0 it returns all 51 messages of a conversation, where the
  limit 50 returns 50.
\<close>

theorem history_nonpositive_limit_counterexample:
  "getChatHistory (JStr ''a'') (JStr ''b'') (Some (- 1)) twoMessages = [msg ''two'']
   \<and> getChatHistory (JStr ''a'') (JStr ''b'') (Some 50) twoMessages = [msg ''one'', msg ''two'']
   \<and> length (getChatHistory (JStr ''a'') (JStr ''b'') (Some 0) manyMessages) = 51
   \<and> length (getChatHistory (JStr ''a'') (JStr ''b'') (Some 50) manyMessages) = 50"
  by (simp add: getChatHistory_def getConversationId_strings slice_def twoMessages_def manyMessages_def)

text \<open>
  Claim C7. For user identifiers \<open>a\<close> and \<open>b\<close>, every state and every limit, the
  history of \<open>(a, b)\<close> is the history of \<open>(b, a)\<close>, and storing a message under the key
  of \<open>(a, b)\<close> gives the same state as storing it under the key of \<open>(b, a)\<close>.
\<close>

theorem history_symmetric:
  "getChatHistory (JStr a) (JStr b) limit s = getChatHistory (JStr b) (JStr a) limit s
   \<and> storeMessage (getConversationId (JStr a) (JStr b)) m s
       = storeMessage (getConversationId (JStr b) (JStr a)) m s"
  by (simp add: getChatHistory_def getConversationId_commute [of a b])

subsection \<open>What one event does to the registry and the connections\<close>

lemma register_effect:
  assumes "register now rnd isoNow uname s = Some (r, s')"
  shows "(s' = s) \<or>
     (\<exists>name. s' = s\<lparr>users := AList.update (newUserId now rnd)
                   \<lparr>username = name, socketId = None, online = False, createdAt = isoNow\<rparr> (users s)\<rparr>)"
  using assms
  by (auto simp add: register_def Let_def split: if_splits jsval.splits)

lemma userLogin_effect:
  assumes "userLogin sid payload s = Done s' out"
  shows "(s' = s) \<or>
     (\<exists>k u. destructure payload ''userId'' = Some (JStr k) \<and> map_of (users s) k = Some u
        \<and> s' = s\<lparr>users := AList.update k (u\<lparr>socketId := Some sid, online := True\<rparr>) (users s),
                  connections := AList.update sid k (connections s)\<rparr>)"
proof (cases "destructure payload ''userId''")
  case None
  with assms show ?thesis by (simp add: userLogin_def)
next
  case (Some v)
  show ?thesis
  proof (cases "usersGet s v")
    case None
    with Some assms show ?thesis by (simp add: userLogin_def)
  next
    case u: (Some u)
    then obtain k where "v = JStr k" "map_of (users s) k = Some u"
      by (cases v) auto
    with Some u assms show ?thesis
      by (auto simp add: userLogin_def Let_def)
  qed
qed

lemma disconnect_effect:
  assumes "disconnect sid s = Done s' out"
  shows "(\<exists>k u. map_of (connections s) sid = Some k \<and> k \<noteq> [] \<and> map_of (users s) k = Some u
          \<and> s' = s\<lparr>users := AList.update k (u\<lparr>online := False, socketId := None\<rparr>) (users s),
                    connections := AList.delete sid (connections s)\<rparr>)
     \<or> ((boundUser s sid = None \<or> (\<exists>k. boundUser s sid = Some k \<and> map_of (users s) k = None))
         \<and> s' = s\<lparr>connections := AList.delete sid (connections s)\<rparr>)"
  using assms
  by (auto simp add: disconnect_def boundUser_def Let_def split: option.splits if_splits)

lemma sendMessage_effect:
  assumes "sendMessage sid payload now rnd isoNow s = Done s' out"
  shows "users s' = users s \<and> connections s' = connections s"
  using assms
  by (auto simp add: sendMessage_def storeMessage_def Let_def split: option.splits jsval.splits)

lemma typing_effect: "typing sid payload s = Done s' out \<Longrightarrow> s' = s"
  using typing_Done by blast

lemma getChatHistoryHandler_effect: "getChatHistoryHandler sid payload s = Done s' out \<Longrightarrow> s' = s"
  by (auto simp add: getChatHistoryHandler_def split: option.splits)

lemma handle_cases [consumes 1, case_names same register login leave drop]:
  assumes "handle e s = Done s' out"
  obtains
    (same) "map_of (users s') = map_of (users s)" "map_of (connections s') = map_of (connections s)"
  | (register) now rnd isoNow uname name where
      "e = Register now rnd isoNow uname"
      "map_of (users s') = (map_of (users s))(newUserId now rnd \<mapsto>
          \<lparr>username = name, socketId = None, online = False, createdAt = isoNow\<rparr>)"
      "map_of (connections s') = map_of (connections s)"
  | (login) sid payload k u where
      "e = UserLoginEv sid payload"
      "destructure payload ''userId'' = Some (JStr k)"
      "map_of (users s) k = Some u"
      "map_of (users s') = (map_of (users s))(k \<mapsto> u\<lparr>socketId := Some sid, online := True\<rparr>)"
      "map_of (connections s') = (map_of (connections s))(sid \<mapsto> k)"
  | (leave) sid k u where
      "map_of (connections s) sid = Some k" "k \<noteq> []"
      "map_of (users s) k = Some u"
      "map_of (users s') = (map_of (users s))(k \<mapsto> u\<lparr>online := False, socketId := None\<rparr>)"
      "map_of (connections s') = (map_of (connections s))(sid := None)"
  | (drop) sid where
      "boundUser s sid = None \<or> (\<exists>k. boundUser s sid = Some k \<and> map_of (users s) k = None)"
      "map_of (users s') = map_of (users s)"
      "map_of (connections s') = (map_of (connections s))(sid := None)"
proof (cases e)
  case (Register now rnd isoNow uname)
  show ?thesis
  proof (cases "register now rnd isoNow uname s")
    case None
    with Register assms have "s' = s" by simp
    then show ?thesis using same by simp
  next
    case (Some p)
    obtain r s1 where p: "p = (r, s1)" by (cases p)
    with Some Register assms have "s1 = s'" by simp
    with Some p register_effect [of now rnd isoNow uname s r s'] show ?thesis
      using same register [OF Register] by (auto simp add: update_conv')
  qed
next
  case (UserLoginEv sid payload)
  with assms userLogin_effect [of sid payload s s' out] show ?thesis
    using same login [OF UserLoginEv] by (auto simp add: update_conv')
next
  case (GetChatHistoryEv sid payload)
  with assms getChatHistoryHandler_effect [of sid payload s s' out] show ?thesis
    using same by simp
next
  case (SendMessageEv sid payload now rnd isoNow)
  with assms sendMessage_effect [of sid payload now rnd isoNow s s' out] show ?thesis
    using same by simp
next
  case (TypingEv sid payload)
  with assms typing_effect [of sid payload s s' out] show ?thesis
    using same by simp
next
  case (LogoutEv sid)
  with assms disconnect_effect [of sid s s' out] show ?thesis
    using leave [of sid] drop [of sid] by (auto simp add: logout_eq_disconnect update_conv' delete_conv')
next
  case (DisconnectEv sid)
  with assms disconnect_effect [of sid s s' out] show ?thesis
    using leave [of sid] drop [of sid] by (auto simp add: update_conv' delete_conv')
qed

subsection \<open>Invariants of runs\<close>

lemma match_register:
  assumes "matchMaps U C" "U n = None" "socketId v = None"
  shows "matchMaps (U(n \<mapsto> v)) C"
  unfolding matchMaps_def
proof (rule conjI; intro allI impI)
  fix c k assume "C c = Some k"
  with assms(1) obtain u where "k \<noteq> []" "U k = Some u" "socketId u = Some c"
    unfolding matchMaps_def by blast
  with assms(2) show "k \<noteq> [] \<and> (\<exists>u. (U(n \<mapsto> v)) k = Some u \<and> socketId u = Some c)"
    by auto
next
  fix k u c assume "(U(n \<mapsto> v)) k = Some u \<and> socketId u = Some c"
  with assms(3) have "U k = Some u \<and> socketId u = Some c"
    by (auto split: if_splits)
  with assms(1) show "C c = Some k"
    unfolding matchMaps_def by blast
qed

lemma match_login:
  assumes m: "matchMaps U C" and free: "C sid = None" and u: "U k = Some u"
    and off: "socketId u = None" and k: "k \<noteq> []" and v: "socketId v = Some sid"
  shows "matchMaps (U(k \<mapsto> v)) (C(sid \<mapsto> k))"
  unfolding matchMaps_def
proof (rule conjI; intro allI impI)
  fix c k' assume c: "(C(sid \<mapsto> k)) c = Some k'"
  show "k' \<noteq> [] \<and> (\<exists>u. (U(k \<mapsto> v)) k' = Some u \<and> socketId u = Some c)"
  proof (cases "c = sid")
    case True
    with c k v show ?thesis by simp
  next
    case False
    with c have "C c = Some k'" by simp
    with m obtain w where w: "k' \<noteq> []" "U k' = Some w" "socketId w = Some c"
      unfolding matchMaps_def by blast
    with u off have "k' \<noteq> k" by auto
    with w show ?thesis by simp
  qed
next
  fix k' w c assume a: "(U(k \<mapsto> v)) k' = Some w \<and> socketId w = Some c"
  show "(C(sid \<mapsto> k)) c = Some k'"
  proof (cases "k' = k")
    case True
    with a v show ?thesis by simp
  next
    case False
    with a have "U k' = Some w \<and> socketId w = Some c" by simp
    with m have "C c = Some k'" unfolding matchMaps_def by blast
    with free show ?thesis by auto
  qed
qed

lemma match_leave:
  assumes m: "matchMaps U C" and c: "C sid = Some k" and v: "socketId v = None"
  shows "matchMaps (U(k \<mapsto> v)) (C(sid := None))"
  unfolding matchMaps_def
proof (rule conjI; intro allI impI)
  fix c' k' assume a: "(C(sid := None)) c' = Some k'"
  then have ne: "c' \<noteq> sid" and c': "C c' = Some k'" by (auto split: if_splits)
  with m obtain w where w: "k' \<noteq> []" "U k' = Some w" "socketId w = Some c'"
    unfolding matchMaps_def by blast
  from m c obtain x where "U k = Some x" "socketId x = Some sid"
    unfolding matchMaps_def by blast
  with w ne have "k' \<noteq> k" by auto
  with w show "k' \<noteq> [] \<and> (\<exists>u. (U(k \<mapsto> v)) k' = Some u \<and> socketId u = Some c')" by simp
next
  fix k' w c' assume a: "(U(k \<mapsto> v)) k' = Some w \<and> socketId w = Some c'"
  with v have ne: "k' \<noteq> k" by auto
  with a have "U k' = Some w \<and> socketId w = Some c'" by simp
  with m have "C c' = Some k'" unfolding matchMaps_def by blast
  with c ne show "(C(sid := None)) c' = Some k'" by auto
qed

lemma match_drop:
  assumes m: "matchMaps U C"
    and d: "C sid = None \<or> C sid = Some [] \<or> (\<exists>k. C sid = Some k \<and> U k = None)"
  shows "matchMaps U (C(sid := None))"
  unfolding matchMaps_def
proof (rule conjI; intro allI impI)
  fix c k assume "(C(sid := None)) c = Some k"
  then have "C c = Some k" by (auto split: if_splits)
  with m show "k \<noteq> [] \<and> (\<exists>u. U k = Some u \<and> socketId u = Some c)"
    unfolding matchMaps_def by blast
next
  fix k u c assume a: "U k = Some u \<and> socketId u = Some c"
  with m have c: "C c = Some k" unfolding matchMaps_def by blast
  with m have "k \<noteq> []" unfolding matchMaps_def by blast
  with c d a have "c \<noteq> sid" by auto
  with c show "(C(sid := None)) c = Some k" by simp
qed

lemma run_invariant:
  assumes step: "\<And>e s s' out. P s \<Longrightarrow> handle e s = Done s' out \<Longrightarrow> P s'"
  shows "P s \<Longrightarrow> run evs s = Done s' out \<Longrightarrow> P s'"
proof (induction evs arbitrary: s out)
  case Nil
  then show ?case by simp
next
  case (Cons e evs)
  from Cons.prems(2) obtain s1 out1 out2 where
    h: "handle e s = Done s1 out1" and r: "run evs s1 = Done s' out2"
    by (auto split: outcome.splits)
  from step [OF Cons.prems(1) h] r show ?case by (rule Cons.IH)
qed

lemma run_disciplined_invariant:
  assumes step: "\<And>e s s' out. P s \<Longrightarrow> admissible e s \<Longrightarrow> handle e s = Done s' out \<Longrightarrow> P s'"
  shows "P s \<Longrightarrow> disciplined evs s \<Longrightarrow> run evs s = Done s' out \<Longrightarrow> P s'"
proof (induction evs arbitrary: s out)
  case Nil
  then show ?case by simp
next
  case (Cons e evs)
  from Cons.prems(3) obtain s1 out1 out2 where
    h: "handle e s = Done s1 out1" and r: "run evs s1 = Done s' out2"
    by (auto split: outcome.splits)
  from Cons.prems(2) h have a: "admissible e s" and d: "disciplined evs s1"
    by simp_all
  from step [OF Cons.prems(1) a h] d r show ?case by (rule Cons.IH)
qed

lemma handle_onlineIffHandle:
  assumes "onlineIffHandle s" "handle e s = Done s' out"
  shows "onlineIffHandle s'"
  using assms(2)
proof (cases rule: handle_cases)
  case same
  with assms(1) show ?thesis by (simp add: onlineIffHandle_def)
next
  case (register now rnd isoNow uname name)
  with assms(1) show ?thesis by (auto simp add: onlineIffHandle_def split: if_splits)
next
  case (login sid payload k u)
  with assms(1) show ?thesis by (auto simp add: onlineIffHandle_def split: if_splits)
next
  case (leave sid k u)
  with assms(1) show ?thesis by (auto simp add: onlineIffHandle_def split: if_splits)
next
  case (drop sid)
  with assms(1) show ?thesis by (simp add: onlineIffHandle_def)
qed

lemma handle_boundRegistered:
  assumes "boundRegistered s" "handle e s = Done s' out"
  shows "boundRegistered s'"
  using assms(2)
proof (cases rule: handle_cases)
  case same
  with assms(1) show ?thesis by (simp add: boundRegistered_def)
next
  case (register now rnd isoNow uname name)
  with assms(1) show ?thesis by (auto simp add: boundRegistered_def)
next
  case (login sid payload k u)
  with assms(1) show ?thesis by (auto simp add: boundRegistered_def split: if_splits)
next
  case (leave sid k u)
  with assms(1) show ?thesis by (auto simp add: boundRegistered_def split: if_splits)
next
  case (drop sid)
  with assms(1) show ?thesis by (auto simp add: boundRegistered_def split: if_splits)
qed

lemma init_invariants: "onlineIffHandle init" "boundRegistered init" "bindingsMatch init"
  by (simp_all add: onlineIffHandle_def boundRegistered_def bindingsMatch_def matchMaps_def init_def)

lemma handle_bindingsMatch:
  assumes inv: "bindingsMatch s" and adm: "admissible e s" and h: "handle e s = Done s' out"
  shows "bindingsMatch s'"
proof -
  from inv have o: "onlineIffHandle s" and e: "map_of (users s) [] = None"
    and m: "matchMaps (map_of (users s)) (map_of (connections s))"
    by (simp_all add: bindingsMatch_def)
  from o h have o': "onlineIffHandle s'" by (rule handle_onlineIffHandle)
  from h have "map_of (users s') [] = None \<and> matchMaps (map_of (users s')) (map_of (connections s'))"
  proof (cases rule: handle_cases)
    case same
    with e m show ?thesis by simp
  next
    case (register now rnd isoNow uname name)
    with adm have fresh: "map_of (users s) (newUserId now rnd) = None" by simp
    have "newUserId now rnd \<noteq> []" by (simp add: newUserId_def)
    with e register(2) have "map_of (users s') [] = None" by simp
    moreover from m fresh have "matchMaps (map_of (users s')) (map_of (connections s'))"
      unfolding register(2,3) by (rule match_register) simp
    ultimately show ?thesis ..
  next
    case (login sid payload k u)
    with adm have free: "map_of (connections s) sid = None" and off: "\<not> online u"
      by simp_all
    from o login(3) off have none: "socketId u = None"
      by (auto simp add: onlineIffHandle_def)
    from e login(3) have k: "k \<noteq> []" by auto
    with e login(4) have "map_of (users s') [] = None" by simp
    moreover from m free login(3) none k have "matchMaps (map_of (users s')) (map_of (connections s'))"
      unfolding login(4,5) by (rule match_login) simp
    ultimately show ?thesis ..
  next
    case (leave sid k u)
    with e have "map_of (users s') [] = None" by simp
    moreover from m leave(1) have "matchMaps (map_of (users s')) (map_of (connections s'))"
      unfolding leave(4,5) by (rule match_leave) simp
    ultimately show ?thesis ..
  next
    case (drop sid)
    from drop(1) have "map_of (connections s) sid = None \<or> map_of (connections s) sid = Some []
        \<or> (\<exists>k. map_of (connections s) sid = Some k \<and> map_of (users s) k = None)"
      by (auto simp add: boundUser_def split: option.splits if_splits)
    with m have "matchMaps (map_of (users s')) (map_of (connections s'))"
      unfolding drop(2,3) by (rule match_drop)
    with e drop(2) show ?thesis by simp
  qed
  with o' show ?thesis by (simp add: bindingsMatch_def)
qed

lemma run_append:
  "run (xs @ ys) s =
     (case run xs s of
        Threw \<Rightarrow> Threw
      | Done s' out \<Rightarrow> (case run ys s' of Threw \<Rightarrow> Threw | Done s'' out' \<Rightarrow> Done s'' (out @ out')))"
  by (induction xs arbitrary: s) (auto split: outcome.splits)

lemma step_login_alice_again:
  "handle (UserLoginEv ''c2'' (JObj [(''userId'', JStr aliceId)])) aliceOnline
     = Done twoChannels
         [(Socket ''c2'', LoginSuccess aliceId ''alice''),
          (Everyone, UsersUpdate [(aliceId, ''alice'')]),
          (Others ''c2'', UserOnline aliceId ''alice'')]"
  by (simp add: Let_def userLogin_def getOnlineUsers_def
    aliceOnline_def twoChannels_def alice_def bob_def aliceId_def bobId_def)

lemma step_disconnect_first:
  "handle (DisconnectEv ''c1'') twoChannels
     = Done orphanBinding [(Others ''c1'', UserOffline aliceId ''alice''), (Everyone, UsersUpdate [])]"
  by (simp add: Let_def disconnect_def boundUser_def getOnlineUsers_def
    orphanBinding_def twoChannels_def alice_def bob_def aliceId_def bobId_def)

lemma orphanBinding_reachable:
  "run twoChannelsRun init
     = Done orphanBinding
         [(Socket ''c1'', LoginSuccess aliceId ''alice''),
          (Everyone, UsersUpdate [(aliceId, ''alice'')]),
          (Others ''c1'', UserOnline aliceId ''alice''),
          (Socket ''c2'', LoginSuccess aliceId ''alice''),
          (Everyone, UsersUpdate [(aliceId, ''alice'')]),
          (Others ''c2'', UserOnline aliceId ''alice''),
          (Others ''c1'', UserOffline aliceId ''alice''),
          (Everyone, UsersUpdate [])]"
  by (simp del: handle.simps
    add: twoChannelsRun_def run_append aliceOnline_reachable step_login_alice_again step_disconnect_first)

lemma aliceOnlineRun_disciplined: "disciplined aliceOnlineRun init"
  by (simp del: handle.simps add: aliceOnlineRun_def step_register_alice step_register_bob step_login_alice)
     (simp add: init_def aliceRegistered_def bothRegistered_def newUserId_def dec_5 dec_6
        alice_def bob_def aliceId_def bobId_def)

text \<open>
  Claim C1, as amended. In every state reached from the empty state by registrations
  and socket events, a registered user's \<open>online\<close> flag is true if and only if the
  user's \<open>socketId\<close> is not null. If, in the run, no channel logged in while bound, no
  user logged in while online and no registration drew an identifier already in the
  registry, then this holds if and only if the connections map binds a channel to the
  user's identifier.
\<close>

theorem online_iff_handle:
  assumes "run evs init = Done s out" and "map_of (users s) k = Some u"
  shows "(online u \<longleftrightarrow> socketId u \<noteq> None)
         \<and> (disciplined evs init \<longrightarrow>
              (socketId u \<noteq> None \<longleftrightarrow> (\<exists>c. map_of (connections s) c = Some k)))"
proof
  have "onlineIffHandle s"
    using handle_onlineIffHandle init_invariants(1) assms(1)
    by (rule run_invariant [where P = onlineIffHandle])
  with assms(2) show "online u \<longleftrightarrow> socketId u \<noteq> None"
    by (simp add: onlineIffHandle_def)
next
  show "disciplined evs init \<longrightarrow>
          (socketId u \<noteq> None \<longleftrightarrow> (\<exists>c. map_of (connections s) c = Some k))"
  proof
    assume "disciplined evs init"
    with handle_bindingsMatch init_invariants(3) have "bindingsMatch s"
      using assms(1) by (rule run_disciplined_invariant [where P = bindingsMatch])
    then have m: "matchMaps (map_of (users s)) (map_of (connections s))"
      by (simp add: bindingsMatch_def)
    show "socketId u \<noteq> None \<longleftrightarrow> (\<exists>c. map_of (connections s) c = Some k)"
    proof
      assume "socketId u \<noteq> None"
      then obtain c where "socketId u = Some c" by auto
      with m assms(2) have "map_of (connections s) c = Some k"
        unfolding matchMaps_def by blast
      then show "\<exists>c. map_of (connections s) c = Some k" ..
    next
      assume "\<exists>c. map_of (connections s) c = Some k"
      then obtain c where "map_of (connections s) c = Some k" ..
      with m obtain w where "map_of (users s) k = Some w" "socketId w = Some c"
        unfolding matchMaps_def by blast
      with assms(2) show "socketId u \<noteq> None" by simp
    qed
  qed
qed

theorem online_iff_handle_witness:
  "online (alice\<lparr>socketId := Some ''c1'', online := True\<rparr>)
   \<and> socketId (alice\<lparr>socketId := Some ''c1'', online := True\<rparr>) \<noteq> None
   \<and> (\<exists>c. map_of (connections aliceOnline) c = Some aliceId)"
proof -
  have u: "map_of (users aliceOnline) aliceId = Some (alice\<lparr>socketId := Some ''c1'', online := True\<rparr>)"
    by (simp add: aliceOnline_def)
  from online_iff_handle [OF aliceOnline_reachable u] aliceOnlineRun_disciplined
  show ?thesis by simp
qed

text \<open>
  Claim C1 as stated fails: after alice logs in on channel \<open>c1\<close>, logs in again on
  channel \<open>c2\<close> and \<open>c1\<close> disconnects, alice is offline with a null \<open>socketId\<close> while
  the connections map still binds \<open>c2\<close> to her identifier.
\<close>

theorem binding_outlives_online_counterexample:
  "run twoChannelsRun init
     = Done orphanBinding
         [(Socket ''c1'', LoginSuccess aliceId ''alice''),
          (Everyone, UsersUpdate [(aliceId, ''alice'')]),
          (Others ''c1'', UserOnline aliceId ''alice''),
          (Socket ''c2'', LoginSuccess aliceId ''alice''),
          (Everyone, UsersUpdate [(aliceId, ''alice'')]),
          (Others ''c2'', UserOnline aliceId ''alice''),
          (Others ''c1'', UserOffline aliceId ''alice''),
          (Everyone, UsersUpdate [])]
   \<and> map_of (users orphanBinding) aliceId = Some alice
   \<and> \<not> online alice \<and> socketId alice = None
   \<and> map_of (connections orphanBinding) ''c2'' = Some aliceId"
  using orphanBinding_reachable
  by (simp add: orphanBinding_def alice_def aliceId_def)

subsection \<open>Storing a message\<close>

lemma storeMessage_same:
  "map_of (messages (storeMessage cid m s)) cid
     = Some ((case map_of (messages s) cid of None \<Rightarrow> [] | Some h \<Rightarrow> h) @ [m])"
  by (simp add: storeMessage_def Let_def update_conv' split: option.splits)

lemma storeMessage_other:
  "cid' \<noteq> cid \<Longrightarrow> map_of (messages (storeMessage cid m s)) cid' = map_of (messages s) cid'"
  by (simp add: storeMessage_def Let_def update_conv' split: option.splits)

lemma storeMessage_frame:
  "users (storeMessage cid m s) = users s" "connections (storeMessage cid m s) = connections s"
  by (simp_all add: storeMessage_def Let_def)

lemma lastN_snoc:
  "0 < n \<Longrightarrow> lastN n (xs @ [m]) \<noteq> [] \<and> last (lastN n (xs @ [m])) = m"
  by (auto simp add: lastN_def)

text \<open>
  With a string as message, a send-message event in a reachable state from an
  authenticated sender \<open>k\<close> to a registered recipient \<open>r\<close> who is offline emits
  exactly one event: \<^verbatim>\<open>message-sent\<close> to the sender's socket, carrying the stored
  message (so no \<^verbatim>\<open>receive-message\<close> goes to any channel). The stored message has the
  trimmed input as its body, it is appended to the conversation of the pair, and it is
  the last element of the history of \<open>(k, r)\<close> read after the send.
\<close>

lemma send_to_offline_recipient:
  assumes reach: "run evs init = Done s out0"
    and r: "destructure payload ''recipientId'' = Some (JStr r)"
    and b: "destructure payload ''message'' = Some (JStr body)"
    and k: "boundUser s sid = Some k"
    and rcp: "map_of (users s) r = Some recipient"
    and off: "\<not> online recipient"
  shows "\<exists>m s'. sendMessage sid payload now rnd isoNow s = Done s' [(Socket sid, MessageSent m)]
           \<and> message m = trim body \<and> senderId m = k \<and> recipientId m = r
           \<and> conversation s' (JStr k) (JStr r) = conversation s (JStr k) (JStr r) @ [m]
           \<and> getChatHistory (JStr k) (JStr r) None s' \<noteq> []
           \<and> last (getChatHistory (JStr k) (JStr r) None s') = m"
proof -
  have "boundRegistered s"
    using handle_boundRegistered init_invariants(2) reach
    by (rule run_invariant [where P = boundRegistered])
  moreover from k have "map_of (connections s) sid = Some k"
    by (auto simp add: boundUser_def split: option.splits if_splits)
  ultimately obtain sender where sender: "map_of (users s) k = Some sender"
    by (auto simp add: boundRegistered_def)
  define m where "m =
     \<lparr>msgId = ''msg_'' @ dec now @ ''_'' @ rnd, senderId = k, senderName = username sender,
      recipientId = r, recipientName = username recipient, message = trim body,
      timestamp = isoNow\<rparr>"
  define s' where "s' = storeMessage (getConversationId (JStr k) (JStr r)) m s"
  have send: "sendMessage sid payload now rnd isoNow s = Done s' [(Socket sid, MessageSent m)]"
    using r b k rcp off sender
    by (simp add: sendMessage_def Let_def onlineHandle_def m_def s'_def)
  have conv: "conversation s' (JStr k) (JStr r) = conversation s (JStr k) (JStr r) @ [m]"
    by (simp add: conversation_def s'_def storeMessage_same)
  have hist: "getChatHistory (JStr k) (JStr r) None s' = lastN 50 (conversation s (JStr k) (JStr r) @ [m])"
    by (simp add: getChatHistory_conversation conv slice_neg)
  have fields: "message m = trim body" "senderId m = k" "recipientId m = r"
    by (simp_all add: m_def)
  from send fields conv hist lastN_snoc [of 50 "conversation s (JStr k) (JStr r)" m]
  show ?thesis by simp
qed

lemma send_to_offline_recipient_example:
  "\<exists>m s'. sendMessage ''c1'' (JObj [(''recipientId'', JStr bobId), (''message'', JStr '' hi '')])
               7 ''ccccccccc'' ''t3'' aliceOnline
             = Done s' [(Socket ''c1'', MessageSent m)]
           \<and> message m = ''hi'' \<and> senderId m = aliceId \<and> recipientId m = bobId
           \<and> getChatHistory (JStr aliceId) (JStr bobId) None s' \<noteq> []
           \<and> last (getChatHistory (JStr aliceId) (JStr bobId) None s') = m"
proof -
  let ?p = "JObj [(''recipientId'', JStr bobId), (''message'', JStr '' hi '')]"
  have r: "destructure ?p ''recipientId'' = Some (JStr bobId)" by simp
  have b: "destructure ?p ''message'' = Some (JStr '' hi '')" by simp
  have k: "boundUser aliceOnline ''c1'' = Some aliceId"
    by (simp add: boundUser_def aliceOnline_def aliceId_def)
  have rcp: "map_of (users aliceOnline) bobId = Some bob"
    by (simp add: aliceOnline_def aliceId_def bobId_def)
  have off: "\<not> online bob" by (simp add: bob_def)
  have t: "trim '' hi '' = ''hi''" by (simp add: trim_def isWhiteSpace_def)
  from send_to_offline_recipient [OF aliceOnline_reachable r b k rcp off, of 7 "''ccccccccc''" "''t3''"] t
  show ?thesis by auto
qed

text \<open>
  Claim C6 fails on the code. In a state reached by two registrations and a login,
  alice is authenticated on channel \<open>c1\<close> and bob is registered and offline; a
  send-message event from \<open>c1\<close> to bob whose payload has no \<open>message\<close>, or has
  \<^verbatim>\<open>null\<close> as message, throws at \<^verbatim>\<open>message.trim()\<close>: no \<^verbatim>\<open>message-sent\<close> is emitted
  and nothing is stored.
\<close>

theorem send_to_offline_recipient_throws:
  "run aliceOnlineRun init
     = Done aliceOnline
         [(Socket ''c1'', LoginSuccess aliceId ''alice''),
          (Everyone, UsersUpdate [(aliceId, ''alice'')]),
          (Others ''c1'', UserOnline aliceId ''alice'')]
   \<and> boundUser aliceOnline ''c1'' = Some aliceId
   \<and> map_of (users aliceOnline) bobId = Some bob
   \<and> \<not> online bob
   \<and> sendMessage ''c1'' (JObj [(''recipientId'', JStr bobId)]) 7 ''ccccccccc'' ''t3'' aliceOnline
       = Threw
   \<and> sendMessage ''c1'' (JObj [(''recipientId'', JStr bobId), (''message'', JNull)])
         7 ''ccccccccc'' ''t3'' aliceOnline
       = Threw"
  using aliceOnline_reachable
  by (simp add: sendMessage_def boundUser_def aliceOnline_def aliceId_def bobId_def bob_def)

subsection \<open>Conversation keys of registered identifiers\<close>

lemma split_at_separator:
  "c \<notin> set xs \<Longrightarrow> c \<notin> set xs' \<Longrightarrow> xs @ c # ys = xs' @ c # ys' \<Longrightarrow> xs = xs' \<and> ys = ys'"
proof (induction xs arbitrary: xs')
  case Nil
  show ?case
  proof (cases xs')
    case Nil
    with Nil.prems show ?thesis by simp
  next
    case (Cons x zs)
    with Nil.prems(3) have "c = x" by simp
    with Cons Nil.prems(2) show ?thesis by simp
  qed
next
  case (Cons x xs)
  show ?case
  proof (cases xs')
    case Nil
    with Cons.prems(3) have "x = c" by simp
    with Cons.prems(1) show ?thesis by simp
  next
    case (Cons z zs)
    with Cons.prems have "x = z" "c \<notin> set xs" "c \<notin> set zs" "xs @ c # ys = zs @ c # ys'"
      by simp_all
    with Cons.IH [of zs] Cons show ?thesis by simp
  qed
qed

lemma isUserId_form:
  assumes "isUserId s"
  obtains t r where "s = ''user_'' @ t @ CHR ''_'' # r" "CHR ''_'' \<notin> set t" "CHR ''_'' \<notin> set r"
proof -
  define rest where "rest = drop 5 s"
  define t where "t = takeWhile isDigit rest"
  from assms have p: "take 5 s = ''user_''"
    by (simp add: isUserId_def)
  from assms obtain r where r: "drop (length t) rest = CHR ''_'' # r" "list_all isBase36 r"
    by (auto simp add: isUserId_def Let_def rest_def t_def split: list.splits)
  have "rest = take (length t) rest @ drop (length t) rest" by simp
  moreover have "take (length t) rest = t"
    unfolding t_def by (simp add: takeWhile_eq_take [symmetric])
  ultimately have "rest = t @ CHR ''_'' # r" using r(1) by simp
  moreover have "s = take 5 s @ rest" by (simp add: rest_def)
  ultimately have "s = ''user_'' @ t @ CHR ''_'' # r" using p by simp
  moreover have "CHR ''_'' \<notin> set t"
  proof
    assume "CHR ''_'' \<in> set t"
    then have "isDigit CHR ''_''" unfolding t_def by (rule set_takeWhileD [THEN conjunct2])
    then show False by (simp add: isDigit_def)
  qed
  moreover have "CHR ''_'' \<notin> set r"
  proof
    assume "CHR ''_'' \<in> set r"
    with r(2) have "isBase36 CHR ''_''" by (simp add: list_all_iff)
    then show False by (simp add: isBase36_def)
  qed
  ultimately show ?thesis by (rule that)
qed

lemma join_userIds_inj:
  assumes "isUserId a" "isUserId a'" "a @ ''_'' @ b = a' @ ''_'' @ b'"
  shows "a = a' \<and> b = b'"
proof -
  from assms(1) obtain t r where a: "a = ''user_'' @ t @ CHR ''_'' # r"
    and t: "CHR ''_'' \<notin> set t" and r: "CHR ''_'' \<notin> set r"
    by (rule isUserId_form)
  from assms(2) obtain t' r' where a': "a' = ''user_'' @ t' @ CHR ''_'' # r'"
    and t': "CHR ''_'' \<notin> set t'" and r': "CHR ''_'' \<notin> set r'"
    by (rule isUserId_form)
  from assms(3) have e: "t @ CHR ''_'' # (r @ CHR ''_'' # b) = t' @ CHR ''_'' # (r' @ CHR ''_'' # b')"
    by (simp add: a a')
  from split_at_separator [OF t t' e]
  have tt: "t = t'" and e': "r @ CHR ''_'' # b = r' @ CHR ''_'' # b'"
    by simp_all
  from split_at_separator [OF r r' e'] have "r = r'" "b = b'"
    by simp_all
  with tt a a' show ?thesis by simp
qed

lemma getConversationId_ordered:
  obtains x y where "getConversationId (JStr a) (JStr b) = x @ ''_'' @ y"
    and "{x, y} = {a, b}" and "x = a \<or> x = b"
proof (cases "b < a")
  case True
  then have "getConversationId (JStr a) (JStr b) = b @ ''_'' @ a"
    by (simp add: getConversationId_strings)
  moreover have "{b, a} = {a, b}" by (rule insert_commute)
  ultimately show ?thesis using that by blast
next
  case False
  then have "getConversationId (JStr a) (JStr b) = a @ ''_'' @ b"
    by (simp add: getConversationId_strings)
  then show ?thesis using that by blast
qed

lemma getConversationId_inj:
  assumes "isUserId a" "isUserId b" "isUserId c" "isUserId d"
    and eq: "getConversationId (JStr a) (JStr b) = getConversationId (JStr c) (JStr d)"
  shows "{a, b} = {c, d}"
proof -
  obtain x y where xy: "getConversationId (JStr a) (JStr b) = x @ ''_'' @ y"
    and s1: "{x, y} = {a, b}" and x: "x = a \<or> x = b"
    by (rule getConversationId_ordered)
  obtain x' y' where xy': "getConversationId (JStr c) (JStr d) = x' @ ''_'' @ y'"
    and s2: "{x', y'} = {c, d}" and x': "x' = c \<or> x' = d"
    by (rule getConversationId_ordered)
  from x assms(1,2) have ix: "isUserId x" by blast
  from x' assms(3,4) have ix': "isUserId x'" by blast
  from eq xy xy' have "x @ ''_'' @ y = x' @ ''_'' @ y'" by simp
  with ix ix' have "x = x' \<and> y = y'" by (rule join_userIds_inj)
  with s1 s2 show ?thesis by simp
qed

lemma example_ids: "isUserId aliceId" "isUserId bobId" "isUserId carolId"
  by (simp_all add: isUserId_def isDigit_def isBase36_def aliceId_def bobId_def carolId_def)

lemma dec_digits: "dec n \<noteq> [] \<and> list_all isDigit (dec n)"
proof (induction n rule: dec.induct)
  case (1 n)
  have d: "isDigit (''0123456789'' ! k)" if "k < 10" for k
    unfolding isDigit_def using that by (intro nth_mem) simp
  show ?case
  proof (cases "n < 10")
    case True
    with d [of n] show ?thesis by (subst (1 2) dec.simps) simp
  next
    case False
    with 1 d [of "n mod 10"] show ?thesis by (subst (1 2) dec.simps) simp
  qed
qed

lemma newUserId_isUserId:
  assumes "length rnd = 9" "list_all isBase36 rnd"
  shows "isUserId (newUserId now rnd)"
proof -
  have "takeWhile isDigit (dec now @ CHR ''_'' # rnd) = dec now @ takeWhile isDigit (CHR ''_'' # rnd)"
    using dec_digits [of now] by (intro takeWhile_append2) (simp add: list_all_iff)
  then have "takeWhile isDigit (dec now @ CHR ''_'' # rnd) = dec now"
    by (simp add: isDigit_def)
  with assms dec_digits [of now] show ?thesis
    by (simp add: isUserId_def newUserId_def)
qed

text \<open>
  Claim C4. For identifiers of the form \<^verbatim>\<open>user_<timestamp>_<9 base36 chars>\<close>, two
  different unordered pairs get different conversation keys, so a message stored for
  the pair \<open>{a, b}\<close> leaves the history of every other pair \<open>{c, d}\<close> as it was.
\<close>

theorem distinct_pairs_distinct_conversations:
  assumes "isUserId a" "isUserId b" "isUserId c" "isUserId d" and "{a, b} \<noteq> {c, d}"
  shows "getConversationId (JStr a) (JStr b) \<noteq> getConversationId (JStr c) (JStr d)
         \<and> getChatHistory (JStr c) (JStr d) limit
              (storeMessage (getConversationId (JStr a) (JStr b)) m s)
             = getChatHistory (JStr c) (JStr d) limit s"
proof -
  from assms have ne: "getConversationId (JStr c) (JStr d) \<noteq> getConversationId (JStr a) (JStr b)"
    using getConversationId_inj [of a b c d] by auto
  then show ?thesis
    by (simp add: getChatHistory_def storeMessage_other)
qed

theorem distinct_pairs_distinct_conversations_witness:
  "getConversationId (JStr aliceId) (JStr bobId) \<noteq> getConversationId (JStr carolId) (JStr aliceId)
   \<and> getChatHistory (JStr carolId) (JStr aliceId) None
        (storeMessage (getConversationId (JStr aliceId) (JStr bobId)) (msg ''hi'') aliceOnline)
       = getChatHistory (JStr carolId) (JStr aliceId) None aliceOnline"
proof -
  have ne: "{aliceId, bobId} \<noteq> {carolId, aliceId}"
    by (simp add: aliceId_def bobId_def carolId_def doubleton_eq_iff)
  show ?thesis
    by (rule distinct_pairs_distinct_conversations
          [OF example_ids(1) example_ids(2) example_ids(3) example_ids(1) ne])
qed

end
